theory Spec2Isabelle
  imports Main
begin

section \<open>Query results\<close>

text \<open>
  Every query of the data service resolves to an object \<^verbatim>\<open>{ data, error, status }\<close>.
  \<^verbatim>\<open>data\<close> and \<^verbatim>\<open>error\<close> are an object (or an array) or \<^verbatim>\<open>null\<close>; \<^verbatim>\<open>null\<close> is \<open>None\<close>.
  Objects and arrays are truthy, the empty array too, so a test such as \<^verbatim>\<open>if (data)\<close> or
  \<^verbatim>\<open>if (!ref.value)\<close> asks whether the value is \<^verbatim>\<open>null\<close>.
\<close>

datatype query_error = PostgrestError string

record 'd response =
  data :: "'d option"
  error :: "query_error option"
  status :: int

section \<open>The collaborators composable (\<^verbatim>\<open>useCollabs\<close>)\<close>

text \<open>
  An item is a project or a task: it has an \<^verbatim>\<open>id\<close> and a \<^verbatim>\<open>collaborators\<close> array of user
  ids, and further fields that the composable never reads (the record is extensible).
  The profile objects are of an arbitrary type \<open>'c\<close>.
\<close>

record item =
  item_id :: int
  collaborators :: "string list"

text \<open>
  \<^verbatim>\<open>groupedCollabs\<close> is the reactive object keyed by item id; \<^verbatim>\<open>profileQueries\<close> logs the
  argument of every \<^verbatim>\<open>groupedProfilesQuery\<close> call issued, oldest first.
\<close>

record 'c collabs =
  groupedCollabs :: "int \<rightharpoonup> 'c list"
  profileQueries :: "string list list"

text \<open>
  \<^verbatim>\<open>getProfilesByIds\<close>, after its await: what the helper's promise resolves to, given what
  \<^verbatim>\<open>groupedProfilesQuery\<close> resolved to.
  \<^verbatim>\<open>if (error || !data) return []; return data\<close>
\<close>

definition getProfilesByIds :: "'c list response \<Rightarrow> 'c list" where
  "getProfilesByIds r =
     (if error r \<noteq> None \<or> data r = None then [] else the (data r))"

text \<open>
  A batch is one suspended call of \<^verbatim>\<open>getGroupedCollabs\<close>: the filtered items, and the
  values of those of its promises that have resolved so far, by position in \<^verbatim>\<open>promises\<close>.
\<close>

record ('z, 'c) batch =
  filteredItems :: "'z item_scheme list"
  settled :: "nat \<rightharpoonup> 'c list"

text \<open>
  \<^verbatim>\<open>getGroupedCollabs\<close> up to its await: the filter, and the map that calls
  \<^verbatim>\<open>getProfilesByIds\<close> (hence \<^verbatim>\<open>groupedProfilesQuery\<close>) once for each filtered item.
  \<^verbatim>\<open>item.collaborators.length\<close> is truthy when it is not 0.
\<close>

definition getGroupedCollabs_start ::
  "'z item_scheme list \<Rightarrow> 'c collabs \<Rightarrow> ('z, 'c) batch \<times> 'c collabs" where
  "getGroupedCollabs_start items st =
     (let fitems = filter (\<lambda>item. length (collaborators item) \<noteq> 0) items;
          promises = map (\<lambda>item. collaborators item) fitems
      in (\<lparr>filteredItems = fitems, settled = Map.empty\<rparr>,
          st\<lparr>profileQueries := profileQueries st @ promises\<rparr>))"

text \<open>The promise at position \<open>i\<close> resolves, its query having resolved to \<open>r\<close>.\<close>

definition promise_settle :: "nat \<Rightarrow> 'c list response \<Rightarrow> ('z, 'c) batch \<Rightarrow> ('z, 'c) batch" where
  "promise_settle i r b = b\<lparr>settled := (settled b)(i \<mapsto> getProfilesByIds r)\<rparr>"

text \<open>
  \<^verbatim>\<open>Promise.all(promises)\<close>: pending (\<open>None\<close>) until every promise has resolved, then the
  array of their values in the order of \<^verbatim>\<open>promises\<close>.
\<close>

definition promise_all :: "('z, 'c) batch \<Rightarrow> 'c list list option" where
  "promise_all b =
     (let n = length (filteredItems b)
      in if list_all (\<lambda>i. settled b i \<noteq> None) [0..<n]
         then Some (map (\<lambda>i. the (settled b i)) [0..<n])
         else None)"

text \<open>
  \<^verbatim>\<open>filteredItems.forEach((item, index) => { groupedCollabs.value[item.id] = results[index] ?? [] })\<close>
  An index beyond the array reads \<^verbatim>\<open>undefined\<close>, which \<^verbatim>\<open>??\<close> replaces by \<^verbatim>\<open>[]\<close>.
\<close>

fun forEach_store ::
  "'z item_scheme list \<Rightarrow> nat \<Rightarrow> 'c list list \<Rightarrow> (int \<rightharpoonup> 'c list) \<Rightarrow> (int \<rightharpoonup> 'c list)" where
  "forEach_store [] index results m = m"
| "forEach_store (item # rest) index results m =
     forEach_store rest (Suc index) results
       (m(item_id item \<mapsto> (if index < length results then results ! index else [])))"

text \<open>
  \<^verbatim>\<open>getGroupedCollabs\<close> after its await: \<open>None\<close> while \<^verbatim>\<open>Promise.all\<close> is pending, the state
  after the \<^verbatim>\<open>forEach\<close> once it has resolved.
\<close>

definition getGroupedCollabs_finish :: "('z, 'c) batch \<Rightarrow> 'c collabs \<Rightarrow> 'c collabs option" where
  "getGroupedCollabs_finish b st =
     (case promise_all b of
        None \<Rightarrow> None
      | Some results \<Rightarrow>
          Some (st\<lparr>groupedCollabs := forEach_store (filteredItems b) 0 results (groupedCollabs st)\<rparr>))"

text \<open>
  The promises at the positions \<open>order\<close> resolve, one after the other; \<open>answer i\<close> is what
  the query of the promise at position \<open>i\<close> resolves to.
\<close>

definition settle_in_order ::
  "nat list \<Rightarrow> (nat \<Rightarrow> 'c list response) \<Rightarrow> ('z, 'c) batch \<Rightarrow> ('z, 'c) batch" where
  "settle_in_order order answer b = fold (\<lambda>i. promise_settle i (answer i)) order b"

text \<open>
  A whole call: the synchronous start, the promises at \<open>order\<close> resolving, and the
  continuation if \<^verbatim>\<open>Promise.all\<close> has resolved by then.
\<close>

definition getGroupedCollabs ::
  "'z item_scheme list \<Rightarrow> nat list \<Rightarrow> (nat \<Rightarrow> 'c list response) \<Rightarrow> 'c collabs \<Rightarrow> 'c collabs option" where
  "getGroupedCollabs items order answer st =
     (case getGroupedCollabs_start items st of
        (b, st1) \<Rightarrow> getGroupedCollabs_finish (settle_in_order order answer b) st1)"

section \<open>The memoizing wrapper (\<^verbatim>\<open>useMemoize\<close>)\<close>

text \<open>
  Modelled from the spec: \<^verbatim>\<open>useMemoize\<close> is imported from \<^verbatim>\<open>@vueuse/core\<close> and its code is
  not among the sources; the model follows the contract of KeyedMemoAsync. The first call
  with a new key invokes the underlying asynchronous function, stores the promise and
  returns it; a call with a key that has an entry returns the stored promise, pending or
  settled, with no further invocation; \<^verbatim>\<open>delete(key)\<close> removes the entry of that
  key only; entries never expire.

  A promise is identified by the number of the invocation that created it;
  \<^verbatim>\<open>invocations\<close> lists the argument of every invocation of the underlying function, oldest
  first.
\<close>

record memo =
  cache :: "string \<rightharpoonup> nat"
  invocations :: "string list"

text \<open>
  Modelled from the spec: the call of a memoized function (\<^verbatim>\<open>loadProject(slug)\<close>,
  \<^verbatim>\<open>loadProjects('projects')\<close>), whose code is in \<^verbatim>\<open>@vueuse/core\<close>. A key with an entry gives
  the stored promise; a new key invokes the underlying function once and stores its
  promise.
\<close>

definition memo_call :: "string \<Rightarrow> memo \<Rightarrow> nat \<times> memo" where
  "memo_call key m =
     (case cache m key of
        Some promise \<Rightarrow> (promise, m)
      | None \<Rightarrow>
          (let promise = length (invocations m)
           in (promise, m\<lparr>cache := (cache m)(key \<mapsto> promise),
                           invocations := invocations m @ [key]\<rparr>)))"

text \<open>
  Modelled from the spec: \<^verbatim>\<open>loaderFn.delete(key)\<close>, whose code is in \<^verbatim>\<open>@vueuse/core\<close>. It
  removes the entry of that key only.
\<close>

definition memo_delete :: "string \<Rightarrow> memo \<Rightarrow> memo" where
  "memo_delete key m = m\<lparr>cache := (cache m)(key := None)\<rparr>"

text \<open>
  A sequence of uses of one memoized loader; the result lists, for each call, its key and
  the promise it returned.
\<close>

datatype memo_op = Call string | Delete string

fun memo_run :: "memo_op list \<Rightarrow> memo \<Rightarrow> (string \<times> nat) list \<times> memo" where
  "memo_run [] m = ([], m)"
| "memo_run (Call key # ops) m =
     (case memo_call key m of
        (promise, m1) \<Rightarrow> (case memo_run ops m1 of (ps, m2) \<Rightarrow> ((key, promise) # ps, m2)))"
| "memo_run (Delete key # ops) m = memo_run ops (memo_delete key m)"

section \<open>The projects store (\<^verbatim>\<open>useProjectsStore\<close>)\<close>

text \<open>
  A project is a JavaScript object: its properties in order, with values of an arbitrary
  type \<open>'v\<close>. The list of projects is of an arbitrary type \<open>'ps\<close>.
\<close>

type_synonym 'v obj = "(string \<times> 'v) list"

text \<open>
  The refs \<^verbatim>\<open>projects\<close> and \<^verbatim>\<open>project\<close> (\<open>None\<close> is \<^verbatim>\<open>null\<close>), the two memoized loaders, and
  logs of what the store sends out: the errors passed to \<^verbatim>\<open>useErrorStore().setError\<close>, the
  keys of the fresh queries that \<^verbatim>\<open>validateCache\<close> issues, and the arguments of the
  \<^verbatim>\<open>updateProjectQuery\<close> calls.
\<close>

record ('ps, 'v) store =
  projects :: "'ps option"
  project :: "'v obj option"
  loadProjects :: memo
  loadProject :: memo
  errorStore :: "(query_error \<times> int) list"
  freshQueries :: "string list"
  updateQueries :: "('v obj \<times> 'v option) list"

subsection \<open>\<^verbatim>\<open>validateCache\<close>\<close>

text \<open>
  The synchronous part, given the value of the ref: \<^verbatim>\<open>if (!ref.value) return\<close>, else the
  fresh query is issued and a callback is left on it. The result tells whether a callback
  is pending, and gives the log of fresh queries.
\<close>

definition validateCache :: "'a option \<Rightarrow> string \<Rightarrow> string list \<Rightarrow> bool \<times> string list" where
  "validateCache refv key issued =
     (if refv = None then (False, issued) else (True, issued @ [key]))"

text \<open>
  The callback, when the fresh query has resolved to \<open>r\<close>; \<open>refv\<close> is the value of the ref
  and \<open>loaderFn\<close> the memoized loader at that moment. \<open>stringify\<close> is \<^verbatim>\<open>JSON.stringify\<close>.
  \<^verbatim>\<open>if (JSON.stringify(ref.value) === JSON.stringify(data)) return\<close>
  \<^verbatim>\<open>loaderFn.delete(key)\<close>
  \<^verbatim>\<open>if (!error && data) ref.value = data\<close>
\<close>

definition validateCache_then ::
  "('a option \<Rightarrow> string) \<Rightarrow> string \<Rightarrow> 'a response \<Rightarrow> 'a option \<times> memo \<Rightarrow> 'a option \<times> memo" where
  "validateCache_then stringify key r rl =
     (case rl of (refv, loaderFn) \<Rightarrow>
        if stringify refv = stringify (data r) then (refv, loaderFn)
        else (let loaderFn1 = memo_delete key loaderFn
              in if error r = None \<and> data r \<noteq> None then (data r, loaderFn1)
                 else (refv, loaderFn1)))"

subsection \<open>\<^verbatim>\<open>getProjects\<close>\<close>

text \<open>Up to the await: the reset, and the call of the memoized loader.\<close>

definition getProjects_begin :: "('ps, 'v) store \<Rightarrow> nat \<times> ('ps, 'v) store" where
  "getProjects_begin st =
     (let st1 = st\<lparr>projects := None\<rparr>
      in case memo_call ''projects'' (loadProjects st1) of
           (promise, m) \<Rightarrow> (promise, st1\<lparr>loadProjects := m\<rparr>))"

text \<open>After the await, the awaited promise having resolved to \<open>r\<close>.\<close>

definition getProjects_resume :: "'ps response \<Rightarrow> ('ps, 'v) store \<Rightarrow> ('ps, 'v) store" where
  "getProjects_resume r st =
     (let st1 = (case error r of
                   Some e \<Rightarrow> st\<lparr>errorStore := errorStore st @ [(e, status r)]\<rparr>
                 | None \<Rightarrow> st);
          st2 = (case data r of Some d \<Rightarrow> st1\<lparr>projects := Some d\<rparr> | None \<Rightarrow> st1)
      in st2\<lparr>freshQueries := snd (validateCache (projects st2) ''projects'' (freshQueries st2))\<rparr>)"

text \<open>The callback of \<^verbatim>\<open>validateCache\<close> on \<^verbatim>\<open>projects\<close>.\<close>

definition projects_revalidated ::
  "('ps option \<Rightarrow> string) \<Rightarrow> 'ps response \<Rightarrow> ('ps, 'v) store \<Rightarrow> ('ps, 'v) store" where
  "projects_revalidated stringify r st =
     (case validateCache_then stringify ''projects'' r (projects st, loadProjects st) of
        (refv, m) \<Rightarrow> st\<lparr>projects := refv, loadProjects := m\<rparr>)"

subsection \<open>\<^verbatim>\<open>getProject\<close>\<close>

definition getProject_begin :: "string \<Rightarrow> ('ps, 'v) store \<Rightarrow> nat \<times> ('ps, 'v) store" where
  "getProject_begin slug st =
     (let st1 = st\<lparr>project := None\<rparr>
      in case memo_call slug (loadProject st1) of
           (promise, m) \<Rightarrow> (promise, st1\<lparr>loadProject := m\<rparr>))"

definition getProject_resume ::
  "string \<Rightarrow> 'v obj response \<Rightarrow> ('ps, 'v) store \<Rightarrow> ('ps, 'v) store" where
  "getProject_resume slug r st =
     (let st1 = (case error r of
                   Some e \<Rightarrow> st\<lparr>errorStore := errorStore st @ [(e, status r)]\<rparr>
                 | None \<Rightarrow> st);
          st2 = (case data r of Some d \<Rightarrow> st1\<lparr>project := Some d\<rparr> | None \<Rightarrow> st1)
      in st2\<lparr>freshQueries := snd (validateCache (project st2) slug (freshQueries st2))\<rparr>)"

definition project_revalidated ::
  "('v obj option \<Rightarrow> string) \<Rightarrow> string \<Rightarrow> 'v obj response \<Rightarrow> ('ps, 'v) store \<Rightarrow> ('ps, 'v) store" where
  "project_revalidated stringify slug r st =
     (case validateCache_then stringify slug r (project st, loadProject st) of
        (refv, m) \<Rightarrow> st\<lparr>project := refv, loadProject := m\<rparr>)"

subsection \<open>\<^verbatim>\<open>updateProject\<close>\<close>

datatype js_error = TypeError

text \<open>
  \<^verbatim>\<open>const {tasks, id, ...projectProperties} = project.value\<close>
  Destructuring \<^verbatim>\<open>null\<close> throws a TypeError. Of an object it gives the two named
  properties (\<^verbatim>\<open>undefined\<close>, here \<open>None\<close>, when absent) and the object of all the others.
\<close>

definition destructure_project ::
  "'v obj option \<Rightarrow> js_error + ('v option \<times> 'v option \<times> 'v obj)" where
  "destructure_project v =
     (case v of
        None \<Rightarrow> Inl TypeError
      | Some p \<Rightarrow>
          Inr (map_of p ''tasks'', map_of p ''id'',
               filter (\<lambda>kv. fst kv \<noteq> ''tasks'' \<and> fst kv \<noteq> ''id'') p))"

text \<open>
  \<^verbatim>\<open>if (!project.value) return\<close>, the destructuring, and
  \<^verbatim>\<open>await updateProjectQuery(projectProperties, project.value.id)\<close>.
\<close>

definition updateProject :: "('ps, 'v) store \<Rightarrow> js_error + ('ps, 'v) store" where
  "updateProject st =
     (if project st = None then Inr st
      else case destructure_project (project st) of
             Inl e \<Rightarrow> Inl e
           | Inr (tasks, ident, projectProperties) \<Rightarrow>
               Inr (st\<lparr>updateQueries := updateQueries st @
                      [(projectProperties, map_of (the (project st)) ''id'')]\<rparr>))"

subsection \<open>Interleavings of the single-project loader\<close>

text \<open>
  JavaScript runs each of these to completion before the next starts: a call of
  \<^verbatim>\<open>getProject\<close> up to its await, the rest of a call once its promise has resolved, and the
  callback of a \<^verbatim>\<open>validateCache\<close>.
\<close>

datatype 'v event =
    GetProject string
  | GetProjectResumed string "'v obj response"
  | ProjectRevalidated string "'v obj response"

fun step :: "('v obj option \<Rightarrow> string) \<Rightarrow> 'v event \<Rightarrow> ('ps, 'v) store \<Rightarrow> ('ps, 'v) store" where
  "step stringify (GetProject slug) st = snd (getProject_begin slug st)"
| "step stringify (GetProjectResumed slug r) st = getProject_resume slug r st"
| "step stringify (ProjectRevalidated slug r) st = project_revalidated stringify slug r st"

definition run :: "('v obj option \<Rightarrow> string) \<Rightarrow> 'v event list \<Rightarrow> ('ps, 'v) store \<Rightarrow> ('ps, 'v) store" where
  "run stringify evs st = fold (step stringify) evs st"

text \<open>The values that the ref \<^verbatim>\<open>project\<close> takes: before the first event, and after each.\<close>

fun project_trace ::
  "('v obj option \<Rightarrow> string) \<Rightarrow> 'v event list \<Rightarrow> ('ps, 'v) store \<Rightarrow> 'v obj option list" where
  "project_trace stringify [] st = [project st]"
| "project_trace stringify (ev # evs) st = project st # project_trace stringify evs (step stringify ev st)"

text \<open>
  No value of the sequence is followed directly by a different value when neither is
  empty: between two different non-empty values there is an empty one.
\<close>

fun through_empty :: "'a option list \<Rightarrow> bool" where
  "through_empty (Some v # Some w # rest) = (v = w \<and> through_empty (Some w # rest))"
| "through_empty (x # rest) = through_empty rest"
| "through_empty [] = True"

section \<open>Properties of the collaborators composable\<close>

lemma forEach_store_other:
  "k \<notin> item_id ` set fi \<Longrightarrow> forEach_store fi idx rs m k = m k"
proof (induction fi arbitrary: idx m)
  case Nil
  then show ?case by simp
next
  case (Cons item rest)
  let ?m = "m(item_id item \<mapsto> (if idx < length rs then rs ! idx else []))"
  have "forEach_store rest (Suc idx) rs ?m k = ?m k"
    using Cons.prems by (intro Cons.IH) simp
  moreover have "k \<noteq> item_id item" using Cons.prems by auto
  ultimately show ?case by simp
qed

lemma dom_forEach_store:
  "dom (forEach_store fi idx rs m) = dom m \<union> item_id ` set fi"
proof (induction fi arbitrary: idx m)
  case Nil
  then show ?case by simp
next
  case (Cons item rest)
  let ?m = "m(item_id item \<mapsto> (if idx < length rs then rs ! idx else []))"
  have "dom (forEach_store rest (Suc idx) rs ?m) = dom ?m \<union> item_id ` set rest"
    by (rule Cons.IH)
  moreover have "dom ?m = insert (item_id item) (dom m)" by simp
  ultimately show ?case by simp
qed

lemma forEach_store_nth:
  "distinct (map item_id fi) \<Longrightarrow> i < length fi \<Longrightarrow>
   forEach_store fi idx rs m (item_id (fi ! i)) =
     Some (if idx + i < length rs then rs ! (idx + i) else [])"
proof (induction fi arbitrary: idx m i)
  case Nil
  then show ?case by simp
next
  case (Cons item rest)
  let ?m = "m(item_id item \<mapsto> (if idx < length rs then rs ! idx else []))"
  show ?case
  proof (cases i)
    case 0
    have "item_id item \<notin> item_id ` set rest" using Cons.prems(1) by auto
    then have "forEach_store rest (Suc idx) rs ?m (item_id item) = ?m (item_id item)"
      by (rule forEach_store_other)
    then show ?thesis using 0 by simp
  next
    case (Suc j)
    have "forEach_store rest (Suc idx) rs ?m (item_id (rest ! j)) =
          Some (if Suc idx + j < length rs then rs ! (Suc idx + j) else [])"
      using Cons.prems Suc by (intro Cons.IH) simp_all
    then show ?thesis using Suc by simp
  qed
qed

lemma filteredItems_settle_in_order [simp]:
  "filteredItems (settle_in_order order answer b) = filteredItems b"
  unfolding settle_in_order_def
  by (induction order arbitrary: b) (simp_all add: promise_settle_def)

lemma settled_settle_in_order:
  "settled (settle_in_order order answer b) i =
     (if i \<in> set order then Some (getProfilesByIds (answer i)) else settled b i)"
  unfolding settle_in_order_def
proof (induction order arbitrary: b rule: rev_induct)
  case Nil
  then show ?case by simp
next
  case (snoc x xs)
  then show ?case by (simp add: promise_settle_def)
qed

lemma promise_all_settle_in_order:
  assumes "settled b = Map.empty"
  shows "promise_all (settle_in_order order answer b) =
     (if {..<length (filteredItems b)} \<subseteq> set order
      then Some (map (\<lambda>i. getProfilesByIds (answer i)) [0..<length (filteredItems b)])
      else None)"
  using assms
  by (auto simp: promise_all_def settled_settle_in_order list_all_iff Let_def subset_iff)


lemma getGroupedCollabs_start_eq:
  "getGroupedCollabs_start items st =
     (\<lparr>filteredItems = filter (\<lambda>item. collaborators item \<noteq> []) items, settled = Map.empty\<rparr>,
      st\<lparr>profileQueries := profileQueries st @
            map collaborators (filter (\<lambda>item. collaborators item \<noteq> []) items)\<rparr>)"
  by (simp add: getGroupedCollabs_start_def Let_def)

lemma getGroupedCollabs_eq:
  "getGroupedCollabs items order answer st =
     (if {..<length (filter (\<lambda>item. collaborators item \<noteq> []) items)} \<subseteq> set order
      then Some (st\<lparr>profileQueries := profileQueries st @
                       map collaborators (filter (\<lambda>item. collaborators item \<noteq> []) items),
                     groupedCollabs :=
                       forEach_store (filter (\<lambda>item. collaborators item \<noteq> []) items) 0
                         (map (\<lambda>i. getProfilesByIds (answer i))
                            [0..<length (filter (\<lambda>item. collaborators item \<noteq> []) items)])
                         (groupedCollabs st)\<rparr>)
      else None)"
  by (simp add: getGroupedCollabs_def getGroupedCollabs_start_eq getGroupedCollabs_finish_def
      promise_all_settle_in_order)

text \<open>
  Claim C1. A call of \<^verbatim>\<open>getGroupedCollabs\<close> writes \<^verbatim>\<open>groupedCollabs\<close> only once every fetch of
  the batch has resolved: the synchronous start leaves the map as it was, and as long as
  one of the promises is unresolved \<^verbatim>\<open>Promise.all\<close> is pending and the continuation has
  not run. Once all have resolved, in whatever order, the call completes; the keys it
  writes are exactly the ids of the filtered items (those with a non-empty
  \<^verbatim>\<open>collaborators\<close> array), and under the id of the \<open>i\<close>-th filtered item it stores the
  \<open>i\<close>-th element of the awaited \<^verbatim>\<open>results\<close> array, or the empty list where that element
  is missing. The ids of the items of a collection are distinct.
\<close>

theorem getGroupedCollabs_all_or_nothing:
  assumes "distinct (map item_id items)"
    and "fi = filter (\<lambda>item. collaborators item \<noteq> []) items"
    and "b = fst (getGroupedCollabs_start items st)"
  shows "groupedCollabs (snd (getGroupedCollabs_start items st)) = groupedCollabs st \<and>
         filteredItems b = fi \<and>
         (\<not> {..<length fi} \<subseteq> set order \<longrightarrow>
            promise_all (settle_in_order order answer b) = None \<and>
            getGroupedCollabs items order answer st = None) \<and>
         ({..<length fi} \<subseteq> set order \<longrightarrow>
            (\<exists>results st'.
               promise_all (settle_in_order order answer b) = Some results \<and>
               getGroupedCollabs items order answer st = Some st' \<and>
               {k. groupedCollabs st' k \<noteq> groupedCollabs st k} \<subseteq> item_id ` set fi \<and>
               dom (groupedCollabs st') = dom (groupedCollabs st) \<union> item_id ` set fi \<and>
               (\<forall>i<length fi. groupedCollabs st' (item_id (fi ! i)) =
                    Some (if i < length results then results ! i else []))))"
proof -
  have dfi: "distinct (map item_id fi)"
    using assms(1,2) by (simp add: distinct_map_filter)
  have b: "filteredItems b = fi" "settled b = Map.empty"
    using assms(2,3) by (simp_all add: getGroupedCollabs_start_eq)
  have start: "groupedCollabs (snd (getGroupedCollabs_start items st)) = groupedCollabs st"
    by (simp add: getGroupedCollabs_start_eq)
  have pending: "promise_all (settle_in_order order answer b) = None \<and>
      getGroupedCollabs items order answer st = None"
    if "\<not> {..<length fi} \<subseteq> set order"
    using that b assms(2) by (simp add: promise_all_settle_in_order getGroupedCollabs_eq)
  have committed: "\<exists>results st'.
               promise_all (settle_in_order order answer b) = Some results \<and>
               getGroupedCollabs items order answer st = Some st' \<and>
               {k. groupedCollabs st' k \<noteq> groupedCollabs st k} \<subseteq> item_id ` set fi \<and>
               dom (groupedCollabs st') = dom (groupedCollabs st) \<union> item_id ` set fi \<and>
               (\<forall>i<length fi. groupedCollabs st' (item_id (fi ! i)) =
                    Some (if i < length results then results ! i else []))"
    if all: "{..<length fi} \<subseteq> set order"
  proof -
    let ?results = "map (\<lambda>i. getProfilesByIds (answer i)) [0..<length fi]"
    let ?m = "forEach_store fi 0 ?results (groupedCollabs st)"
    let ?st' = "st\<lparr>profileQueries := profileQueries st @ map collaborators fi, groupedCollabs := ?m\<rparr>"
    have 1: "promise_all (settle_in_order order answer b) = Some ?results"
      using all b by (simp add: promise_all_settle_in_order)
    have 2: "getGroupedCollabs items order answer st = Some ?st'"
      using all assms(2) by (simp add: getGroupedCollabs_eq)
    have 3: "{k. ?m k \<noteq> groupedCollabs st k} \<subseteq> item_id ` set fi"
      using forEach_store_other[of _ fi 0 ?results "groupedCollabs st"] by blast
    have 4: "dom ?m = dom (groupedCollabs st) \<union> item_id ` set fi"
      by (rule dom_forEach_store)
    have 5: "\<forall>i<length fi. ?m (item_id (fi ! i)) =
                    Some (if i < length ?results then ?results ! i else [])"
      using forEach_store_nth[OF dfi, of _ 0 ?results "groupedCollabs st"] by simp
    have "promise_all (settle_in_order order answer b) = Some ?results \<and>
          getGroupedCollabs items order answer st = Some ?st' \<and>
          {k. groupedCollabs ?st' k \<noteq> groupedCollabs st k} \<subseteq> item_id ` set fi \<and>
          dom (groupedCollabs ?st') = dom (groupedCollabs st) \<union> item_id ` set fi \<and>
          (\<forall>i<length fi. groupedCollabs ?st' (item_id (fi ! i)) =
               Some (if i < length ?results then ?results ! i else []))"
      using 1 2 3 4 5 by simp
    then show ?thesis by blast
  qed
  show ?thesis using start b(1) pending committed by blast
qed


theorem getGroupedCollabs_all_or_nothing_witness:
  "distinct (map item_id
     [\<lparr>item_id = 1, collaborators = [''u1'']\<rparr>, \<lparr>item_id = 2, collaborators = []\<rparr>,
      \<lparr>item_id = 3, collaborators = [''u2'', ''u3'']\<rparr>]) \<and>
   getGroupedCollabs
     [\<lparr>item_id = 1, collaborators = [''u1'']\<rparr>, \<lparr>item_id = 2, collaborators = []\<rparr>,
      \<lparr>item_id = 3, collaborators = [''u2'', ''u3'']\<rparr>]
     [1] (\<lambda>i. \<lparr>data = Some [''ann''], error = None, status = 200\<rparr>)
     \<lparr>groupedCollabs = Map.empty, profileQueries = []\<rparr> = None \<and>
   (\<exists>st'. getGroupedCollabs
     [\<lparr>item_id = 1, collaborators = [''u1'']\<rparr>, \<lparr>item_id = 2, collaborators = []\<rparr>,
      \<lparr>item_id = 3, collaborators = [''u2'', ''u3'']\<rparr>]
     [1, 0] (\<lambda>i. \<lparr>data = Some [''ann''], error = None, status = 200\<rparr>)
     \<lparr>groupedCollabs = Map.empty, profileQueries = []\<rparr> = Some st' \<and>
     dom (groupedCollabs st') = {1, 3} \<and>
     groupedCollabs st' 3 = Some [''ann''])"
proof -
  let ?items = "[\<lparr>item_id = 1, collaborators = [''u1'']\<rparr>, \<lparr>item_id = 2, collaborators = []\<rparr>,
      \<lparr>item_id = 3, collaborators = [''u2'', ''u3'']\<rparr>]"
  let ?fi = "[\<lparr>item_id = 1, collaborators = [''u1'']\<rparr>, \<lparr>item_id = 3, collaborators = [''u2'', ''u3'']\<rparr>]"
  let ?answer = "\<lambda>i::nat. \<lparr>data = Some [''ann''], error = None, status = 200\<rparr>"
  let ?st = "\<lparr>groupedCollabs = Map.empty :: int \<rightharpoonup> string list, profileQueries = []\<rparr>"
  have d: "distinct (map item_id ?items)" by simp
  have f: "?fi = filter (\<lambda>item. collaborators item \<noteq> []) ?items" by simp
  have o1: "\<not> {..<length ?fi} \<subseteq> set [1::nat]" by auto
  have o2: "{..<length ?fi} \<subseteq> set [1::nat, 0]" by auto
  have pending: "getGroupedCollabs ?items [1] ?answer ?st = None"
    using getGroupedCollabs_all_or_nothing [OF d f refl, of ?st "[1]" ?answer] o1 by blast
  obtain results st' where
    r: "promise_all (settle_in_order [1, 0] ?answer (fst (getGroupedCollabs_start ?items ?st))) = Some results"
    and g: "getGroupedCollabs ?items [1, 0] ?answer ?st = Some st'"
    and dm: "dom (groupedCollabs st') = dom (groupedCollabs ?st) \<union> item_id ` set ?fi"
    and v: "\<forall>i<length ?fi. groupedCollabs st' (item_id (?fi ! i)) =
                    Some (if i < length results then results ! i else [])"
    using getGroupedCollabs_all_or_nothing [OF d f refl, of ?st "[1, 0]" ?answer] o2 by blast
  have "results = [[''ann''], [''ann'']]"
    using r by (simp add: promise_all_def settle_in_order_def promise_settle_def
        getGroupedCollabs_start_def getProfilesByIds_def)
  then have "groupedCollabs st' 3 = Some [''ann'']"
    using v by (simp add: All_less_Suc)
  moreover have "dom (groupedCollabs st') = {1, 3}" using dm by auto
  ultimately show ?thesis using d pending g by blast
qed

text \<open>
  Claim C6. When the fetch of one item of a batch reports an error or returns no data,
  \<^verbatim>\<open>getProfilesByIds\<close> yields the empty list for that item, the batch still completes
  (with the empty list stored under that item's id), every other item gets the result of
  its own fetch, and whatever the failing fetch had answered instead, the entries of all
  other keys would be the same.
\<close>

theorem getGroupedCollabs_partial_failure:
  assumes "distinct (map item_id items)"
    and "fi = filter (\<lambda>item. collaborators item \<noteq> []) items"
    and "i < length fi"
    and "error (answer i) \<noteq> None \<or> data (answer i) = None"
    and "{..<length fi} \<subseteq> set order"
  shows "getProfilesByIds (answer i) = [] \<and>
         (\<exists>st'. getGroupedCollabs items order answer st = Some st' \<and>
            groupedCollabs st' (item_id (fi ! i)) = Some [] \<and>
            (\<forall>j<length fi. j \<noteq> i \<longrightarrow>
               groupedCollabs st' (item_id (fi ! j)) = Some (getProfilesByIds (answer j))) \<and>
            (\<forall>r. \<exists>st''. getGroupedCollabs items order (answer(i := r)) st = Some st'' \<and>
               (\<forall>k. k \<noteq> item_id (fi ! i) \<longrightarrow> groupedCollabs st'' k = groupedCollabs st' k)))"
proof -
  have dfi: "distinct (map item_id fi)"
    using assms(1,2) by (simp add: distinct_map_filter)
  let ?results = "\<lambda>a. map (\<lambda>i. getProfilesByIds (a i)) [0..<length fi]"
  let ?m = "\<lambda>a. forEach_store fi 0 (?results a) (groupedCollabs st)"
  let ?st = "\<lambda>a. st\<lparr>profileQueries := profileQueries st @ map collaborators fi, groupedCollabs := ?m a\<rparr>"
  have run: "getGroupedCollabs items order a st = Some (?st a)" for a
    using assms(2,5) by (simp add: getGroupedCollabs_eq)
  have at: "?m a (item_id (fi ! j)) = Some (getProfilesByIds (a j))" if "j < length fi" for a j
    using forEach_store_nth[OF dfi that, of 0 "?results a" "groupedCollabs st"] that by simp
  have empty: "getProfilesByIds (answer i) = []"
    using assms(4) by (auto simp: getProfilesByIds_def)
  have others: "?m (answer(i := r)) k = ?m answer k" if "k \<noteq> item_id (fi ! i)" for r k
  proof (cases "k \<in> item_id ` set fi")
    case True
    then obtain j where j: "j < length fi" "k = item_id (fi ! j)"
      by (auto simp: in_set_conv_nth)
    with that have "j \<noteq> i" by auto
    then show ?thesis using at[OF j(1)] j(2) by simp
  next
    case False
    then show ?thesis by (simp add: forEach_store_other)
  qed
  have "getGroupedCollabs items order answer st = Some (?st answer) \<and>
            groupedCollabs (?st answer) (item_id (fi ! i)) = Some [] \<and>
            (\<forall>j<length fi. j \<noteq> i \<longrightarrow>
               groupedCollabs (?st answer) (item_id (fi ! j)) = Some (getProfilesByIds (answer j))) \<and>
            (\<forall>r. \<exists>st''. getGroupedCollabs items order (answer(i := r)) st = Some st'' \<and>
               (\<forall>k. k \<noteq> item_id (fi ! i) \<longrightarrow> groupedCollabs st'' k = groupedCollabs (?st answer) k))"
    using run at[OF assms(3), of answer] at empty others by simp
  then show ?thesis using empty by blast
qed

text \<open>
  Claim C8. \<^verbatim>\<open>getGroupedCollabs\<close> skips every item whose \<^verbatim>\<open>collaborators\<close> array is empty:
  the item is not among the filtered items, the queries issued are those of the filtered
  items only (none for this item), and the entry of the map under the item's id is after
  the call what it was before. On the empty list of items the call issues no query and
  leaves the whole state as it was.
\<close>

theorem getGroupedCollabs_skips_empty:
  assumes "distinct (map item_id items)"
    and "item \<in> set items"
    and "collaborators item = []"
    and "fi = filteredItems (fst (getGroupedCollabs_start items st))"
  shows "item \<notin> set fi \<and>
         profileQueries (snd (getGroupedCollabs_start items st)) =
           profileQueries st @ map collaborators fi \<and>
         collaborators item \<notin> set (map collaborators fi) \<and>
         (\<forall>st'. getGroupedCollabs items order answer st = Some st' \<longrightarrow>
            groupedCollabs st' (item_id item) = groupedCollabs st (item_id item)) \<and>
         getGroupedCollabs_start [] st = (\<lparr>filteredItems = [], settled = Map.empty\<rparr>, st) \<and>
         getGroupedCollabs [] order answer st = Some st"
proof -
  have fi: "fi = filter (\<lambda>item. collaborators item \<noteq> []) items"
    using assms(4) by (simp add: getGroupedCollabs_start_eq)
  have 1: "item \<notin> set fi" using assms(3) fi by simp
  have 2: "profileQueries (snd (getGroupedCollabs_start items st)) =
           profileQueries st @ map collaborators fi"
    using fi by (simp add: getGroupedCollabs_start_eq)
  have 3: "collaborators item \<notin> set (map collaborators fi)"
    using assms(3) fi by auto
  have "item_id item \<notin> item_id ` set fi"
  proof
    assume "item_id item \<in> item_id ` set fi"
    then obtain x where x: "x \<in> set fi" "item_id x = item_id item" by auto
    then have "x \<in> set items" using fi by simp
    with assms(1,2) x(2) have "x = item" by (meson distinct_map inj_onD)
    with x(1) 1 show False by simp
  qed
  then have 4: "groupedCollabs st' (item_id item) = groupedCollabs st (item_id item)"
    if "getGroupedCollabs items order answer st = Some st'" for st'
    using that fi by (auto simp: getGroupedCollabs_eq forEach_store_other split: if_splits)
  have 5: "getGroupedCollabs_start [] st = (\<lparr>filteredItems = [], settled = Map.empty\<rparr>, st)"
    by (simp add: getGroupedCollabs_start_eq)
  have 6: "getGroupedCollabs [] order answer st = Some st"
    by (simp add: getGroupedCollabs_eq)
  show ?thesis using 1 2 3 4 5 6 by blast
qed

text \<open>
  Claim C10. A call of \<^verbatim>\<open>getGroupedCollabs\<close> leaves every entry of \<^verbatim>\<open>groupedCollabs\<close>
  whose key is not the id of one of its filtered items unchanged, and deletes no key: the
  keys before the call are keys after it.
\<close>

theorem getGroupedCollabs_frame:
  assumes "getGroupedCollabs items order answer st = Some st'"
  shows "groupedCollabs (snd (getGroupedCollabs_start items st)) = groupedCollabs st \<and>
         (\<forall>k. k \<notin> item_id ` set (filter (\<lambda>item. collaborators item \<noteq> []) items) \<longrightarrow>
              groupedCollabs st' k = groupedCollabs st k) \<and>
         dom (groupedCollabs st) \<subseteq> dom (groupedCollabs st')"
proof -
  let ?fi = "filter (\<lambda>item. collaborators item \<noteq> []) items"
  let ?m = "forEach_store ?fi 0 (map (\<lambda>i. getProfilesByIds (answer i)) [0..<length ?fi])
              (groupedCollabs st)"
  have m: "groupedCollabs st' = ?m"
    using assms by (auto simp: getGroupedCollabs_eq split: if_splits)
  have 1: "groupedCollabs (snd (getGroupedCollabs_start items st)) = groupedCollabs st"
    by (simp add: getGroupedCollabs_start_eq)
  have 2: "\<forall>k. k \<notin> item_id ` set ?fi \<longrightarrow> groupedCollabs st' k = groupedCollabs st k"
    using m by (simp add: forEach_store_other)
  have "dom ?m = dom (groupedCollabs st) \<union> item_id ` set ?fi"
    by (rule dom_forEach_store)
  then have 3: "dom (groupedCollabs st) \<subseteq> dom (groupedCollabs st')"
    by (simp add: m)
  show ?thesis using 1 2 3 by blast
qed


theorem getGroupedCollabs_partial_failure_witness:
  "\<exists>st'. getGroupedCollabs
      [\<lparr>item_id = 1, collaborators = [''u1'']\<rparr>, \<lparr>item_id = 2, collaborators = []\<rparr>,
      \<lparr>item_id = 3, collaborators = [''u2'', ''u3'']\<rparr>]
      [0, 1]
      (\<lambda>i. if i = 0 then \<lparr>data = None, error = Some (PostgrestError ''timeout''), status = 500\<rparr>
           else \<lparr>data = Some [''bob''], error = None, status = 200\<rparr>)
      \<lparr>groupedCollabs = Map.empty, profileQueries = []\<rparr> = Some st' \<and>
    groupedCollabs st' 1 = Some [] \<and> groupedCollabs st' 3 = Some [''bob'']"
proof -
  let ?items = "[\<lparr>item_id = 1, collaborators = [''u1'']\<rparr>, \<lparr>item_id = 2, collaborators = []\<rparr>,
      \<lparr>item_id = 3, collaborators = [''u2'', ''u3'']\<rparr>]"
  let ?fi = "[\<lparr>item_id = 1, collaborators = [''u1'']\<rparr>, \<lparr>item_id = 3, collaborators = [''u2'', ''u3'']\<rparr>]"
  let ?answer = "(\<lambda>i. if i = 0 then \<lparr>data = None, error = Some (PostgrestError ''timeout''), status = 500\<rparr>
           else \<lparr>data = Some [''bob''], error = None, status = 200\<rparr>) :: nat \<Rightarrow> string list response"
  let ?st = "\<lparr>groupedCollabs = Map.empty, profileQueries = []\<rparr> :: string collabs"
  have d: "distinct (map item_id ?items)" by simp
  have f: "?fi = filter (\<lambda>item. collaborators item \<noteq> []) ?items" by simp
  have i: "0 < length ?fi" by simp
  have e: "error (?answer 0) \<noteq> None \<or> data (?answer 0) = None" by simp
  have o: "{..<length ?fi} \<subseteq> set [0::nat, 1]" by auto
  obtain st' where g: "getGroupedCollabs ?items [0, 1] ?answer ?st = Some st'"
    and a: "groupedCollabs st' (item_id (?fi ! 0)) = Some []"
    and b: "\<forall>j<length ?fi. j \<noteq> 0 \<longrightarrow>
               groupedCollabs st' (item_id (?fi ! j)) = Some (getProfilesByIds (?answer j))"
    using getGroupedCollabs_partial_failure
      [where items = ?items and fi = ?fi and i = 0 and answer = ?answer and order = "[0, 1]"
         and st = ?st, OF d f i e o]
    by blast
  have "groupedCollabs st' 3 = Some [''bob'']"
    using b by (simp add: All_less_Suc getProfilesByIds_def)
  then show ?thesis using g a by simp
qed

theorem getGroupedCollabs_skips_empty_witness:
  "profileQueries (snd (getGroupedCollabs_start
      [\<lparr>item_id = 1, collaborators = [''u1'']\<rparr>, \<lparr>item_id = 2, collaborators = []\<rparr>,
      \<lparr>item_id = 3, collaborators = [''u2'', ''u3'']\<rparr>]
      (\<lparr>groupedCollabs = Map.empty, profileQueries = []\<rparr> :: string collabs))) = [[''u1''], [''u2'', ''u3'']] \<and>
   (\<exists>st'. getGroupedCollabs
      [\<lparr>item_id = 1, collaborators = [''u1'']\<rparr>, \<lparr>item_id = 2, collaborators = []\<rparr>,
      \<lparr>item_id = 3, collaborators = [''u2'', ''u3'']\<rparr>]
      [0, 1]
      (\<lambda>i. if i = 0 then \<lparr>data = None, error = Some (PostgrestError ''timeout''), status = 500\<rparr>
           else \<lparr>data = Some [''bob''], error = None, status = 200\<rparr>)
      \<lparr>groupedCollabs = Map.empty, profileQueries = []\<rparr> = Some st' \<and>
    groupedCollabs st' 2 = None) \<and>
   getGroupedCollabs ([] :: item list) []
      (\<lambda>i. if i = 0 then \<lparr>data = None, error = Some (PostgrestError ''timeout''), status = 500\<rparr>
           else \<lparr>data = Some [''bob''], error = None, status = 200\<rparr>)
      \<lparr>groupedCollabs = Map.empty, profileQueries = []\<rparr> = Some \<lparr>groupedCollabs = Map.empty, profileQueries = []\<rparr>"
proof -
  let ?items = "[\<lparr>item_id = 1, collaborators = [''u1'']\<rparr>, \<lparr>item_id = 2, collaborators = []\<rparr>,
      \<lparr>item_id = 3, collaborators = [''u2'', ''u3'']\<rparr>]"
  let ?item = "\<lparr>item_id = 2, collaborators = []\<rparr>"
  let ?fi = "[\<lparr>item_id = 1, collaborators = [''u1'']\<rparr>, \<lparr>item_id = 3, collaborators = [''u2'', ''u3'']\<rparr>]"
  let ?answer = "(\<lambda>i. if i = 0 then \<lparr>data = None, error = Some (PostgrestError ''timeout''), status = 500\<rparr>
           else \<lparr>data = Some [''bob''], error = None, status = 200\<rparr>) :: nat \<Rightarrow> string list response"
  let ?st = "\<lparr>groupedCollabs = Map.empty, profileQueries = []\<rparr> :: string collabs"
  have d: "distinct (map item_id ?items)" by simp
  have m: "?item \<in> set ?items" by simp
  have c: "collaborators ?item = []" by simp
  have f: "?fi = filteredItems (fst (getGroupedCollabs_start ?items ?st))"
    by (simp add: getGroupedCollabs_start_def)
  note th = getGroupedCollabs_skips_empty [OF d m c f]
  have o: "{..<length (filter (\<lambda>item. collaborators item \<noteq> []) ?items)} \<subseteq> set [0::nat, 1]" by auto
  obtain st' where g: "getGroupedCollabs ?items [0, 1] ?answer ?st = Some st'"
    using o by (simp only: getGroupedCollabs_eq if_True)
  have "groupedCollabs st' (item_id ?item) = groupedCollabs ?st (item_id ?item)"
    using th [of "[0, 1]" ?answer] g by blast
  then have "groupedCollabs st' 2 = None" by simp
  moreover have "profileQueries (snd (getGroupedCollabs_start ?items ?st)) =
      profileQueries ?st @ map collaborators ?fi"
    using th [of "[]" ?answer] by blast
  then have "profileQueries (snd (getGroupedCollabs_start ?items ?st)) = [[''u1''], [''u2'', ''u3'']]"
    by simp
  moreover have "getGroupedCollabs ([] :: item list) [] ?answer ?st = Some ?st"
    using th [of "[]" ?answer] by blast
  ultimately show ?thesis using g by blast
qed

theorem getGroupedCollabs_frame_witness:
  "\<exists>st'. getGroupedCollabs
      [\<lparr>item_id = 1, collaborators = [''u1'']\<rparr>, \<lparr>item_id = 2, collaborators = []\<rparr>,
      \<lparr>item_id = 3, collaborators = [''u2'', ''u3'']\<rparr>]
      [0, 1]
      (\<lambda>i. if i = 0 then \<lparr>data = None, error = Some (PostgrestError ''timeout''), status = 500\<rparr>
           else \<lparr>data = Some [''bob''], error = None, status = 200\<rparr>)
      \<lparr>groupedCollabs = [7 \<mapsto> [''old'']], profileQueries = []\<rparr> = Some st' \<and>
    groupedCollabs st' 7 = Some [''old''] \<and>
    {7} \<subseteq> dom (groupedCollabs st')"
proof -
  let ?items = "[\<lparr>item_id = 1, collaborators = [''u1'']\<rparr>, \<lparr>item_id = 2, collaborators = []\<rparr>,
      \<lparr>item_id = 3, collaborators = [''u2'', ''u3'']\<rparr>]"
  let ?answer = "(\<lambda>i. if i = 0 then \<lparr>data = None, error = Some (PostgrestError ''timeout''), status = 500\<rparr>
           else \<lparr>data = Some [''bob''], error = None, status = 200\<rparr>) :: nat \<Rightarrow> string list response"
  let ?st = "\<lparr>groupedCollabs = [7 \<mapsto> [''old'']], profileQueries = []\<rparr> :: string collabs"
  have o: "{..<length (filter (\<lambda>item. collaborators item \<noteq> []) ?items)} \<subseteq> set [0::nat, 1]" by auto
  obtain st' where g: "getGroupedCollabs ?items [0, 1] ?answer ?st = Some st'"
    using o by (simp only: getGroupedCollabs_eq if_True)
  have "groupedCollabs st' 7 = Some [''old''] \<and> {7} \<subseteq> dom (groupedCollabs st')"
    using getGroupedCollabs_frame [OF g] by simp
  then show ?thesis using g by blast
qed

section \<open>Properties of the memoized loaders\<close>

lemma memo_call_hit: "cache m key = Some p \<Longrightarrow> memo_call key m = (p, m)"
  by (simp add: memo_call_def)

lemma memo_call_miss:
  "cache m key = None \<Longrightarrow>
   memo_call key m =
     (length (invocations m),
      m\<lparr>cache := (cache m)(key \<mapsto> length (invocations m)), invocations := invocations m @ [key]\<rparr>)"
  by (simp add: memo_call_def Let_def)

lemma memo_call_keeps:
  assumes "memo_call k m = (q, m1)" and "cache m key = Some p"
  shows "cache m1 key = Some p"
    and "count_list (invocations m1) key = count_list (invocations m) key"
    and "length (invocations m) \<le> length (invocations m1)"
    and "k = key \<Longrightarrow> q = p"
  using assms by (auto simp: memo_call_def Let_def split: option.splits)

lemma memo_run_keeps:
  "memo_run ops m = (ps, m') \<Longrightarrow> Delete key \<notin> set ops \<Longrightarrow> cache m key = Some p \<Longrightarrow>
   cache m' key = Some p \<and>
   count_list (invocations m') key = count_list (invocations m) key \<and>
   length (invocations m) \<le> length (invocations m') \<and>
   (\<forall>kq \<in> set ps. fst kq = key \<longrightarrow> snd kq = p)"
proof (induction ops m arbitrary: ps rule: memo_run.induct)
  case (1 m)
  then show ?case by simp
next
  case (2 k ops m)
  obtain q m1 where c: "memo_call k m = (q, m1)" by (cases "memo_call k m")
  obtain ps1 where r: "memo_run ops m1 = (ps1, m')" and ps: "ps = (k, q) # ps1"
    using "2.prems"(1) c by (auto split: prod.splits)
  note keep = memo_call_keeps[OF c "2.prems"(3)]
  have "cache m' key = Some p \<and>
        count_list (invocations m') key = count_list (invocations m1) key \<and>
        length (invocations m1) \<le> length (invocations m') \<and>
        (\<forall>kq \<in> set ps1. fst kq = key \<longrightarrow> snd kq = p)"
    using "2.IH"[OF c[symmetric] r _ keep(1)] "2.prems"(2) by simp
  then show ?case using keep ps by auto
next
  case (3 k ops m)
  have "k \<noteq> key" using "3.prems"(2) by auto
  then have "cache (memo_delete k m) key = Some p"
    using "3.prems"(3) by (simp add: memo_delete_def)
  then have "cache m' key = Some p \<and>
        count_list (invocations m') key = count_list (invocations (memo_delete k m)) key \<and>
        length (invocations (memo_delete k m)) \<le> length (invocations m') \<and>
        (\<forall>kq \<in> set ps. fst kq = key \<longrightarrow> snd kq = p)"
    using "3.IH"[of ps] "3.prems" by simp
  then show ?case by (simp add: memo_delete_def)
qed

text \<open>
  Claim C4. For a key with no entry, the first call of the memoized loader invokes the
  underlying query exactly once and returns the promise of that invocation. Every later
  call with the same key, whatever calls and deletions of other keys come between, returns
  that same promise and invokes nothing for the key. Once the entry of the key is deleted,
  the next call with it invokes the underlying query again and returns a new promise.
\<close>

theorem memo_call_once_until_deleted:
  assumes "cache m key = None"
    and "memo_call key m = (p, m1)"
    and "Delete key \<notin> set ops"
    and "memo_run ops m1 = (ps, m2)"
    and "memo_call key (memo_delete key m2) = (p', m3)"
  shows "invocations m1 = invocations m @ [key] \<and> p = length (invocations m) \<and>
         cache m1 key = Some p \<and>
         (\<forall>kq \<in> set ps. fst kq = key \<longrightarrow> snd kq = p) \<and>
         count_list (invocations m2) key = count_list (invocations m1) key \<and>
         memo_call key m2 = (p, m2) \<and>
         cache (memo_delete key m2) key = None \<and>
         invocations m3 = invocations m2 @ [key] \<and> p' = length (invocations m2) \<and> p' \<noteq> p"
proof -
  have first: "invocations m1 = invocations m @ [key]" "p = length (invocations m)"
    "cache m1 key = Some p"
    using assms(1,2) by (auto simp: memo_call_miss)
  have later: "cache m2 key = Some p"
    "count_list (invocations m2) key = count_list (invocations m1) key"
    "length (invocations m1) \<le> length (invocations m2)"
    "\<forall>kq \<in> set ps. fst kq = key \<longrightarrow> snd kq = p"
    using memo_run_keeps[OF assms(4,3) first(3)] by simp_all
  have again: "memo_call key m2 = (p, m2)"
    using later(1) by (rule memo_call_hit)
  have del: "cache (memo_delete key m2) key = None"
    "invocations (memo_delete key m2) = invocations m2"
    by (simp_all add: memo_delete_def)
  have fresh: "invocations m3 = invocations m2 @ [key]" "p' = length (invocations m2)"
    using assms(5) del by (auto simp: memo_call_miss)
  have "p < length (invocations m2)" using first(1,2) later(3) by simp
  then have "p' \<noteq> p" using fresh(2) by simp
  then show ?thesis using first later again del(1) fresh by blast
qed


theorem memo_call_once_until_deleted_witness:
  "cache \<lparr>cache = Map.empty, invocations = []\<rparr> ''a'' = None \<and>
   Delete ''a'' \<notin> set [Call ''a'', Call ''b'', Delete ''b'', Call ''a''] \<and>
   invocations (snd (memo_call ''a'' \<lparr>cache = Map.empty, invocations = []\<rparr>)) = [''a''] \<and>
   fst (memo_call ''a'' \<lparr>cache = Map.empty, invocations = []\<rparr>) = 0 \<and>
   count_list (invocations (snd (memo_run [Call ''a'', Call ''b'', Delete ''b'', Call ''a'']
      (snd (memo_call ''a'' \<lparr>cache = Map.empty, invocations = []\<rparr>))))) ''a'' = 1 \<and>
   fst (memo_call ''a'' (memo_delete ''a'' (snd (memo_run [Call ''a'', Call ''b'', Delete ''b'', Call ''a'']
      (snd (memo_call ''a'' \<lparr>cache = Map.empty, invocations = []\<rparr>)))))) \<noteq> 0"
proof -
  let ?m = "\<lparr>cache = Map.empty, invocations = []\<rparr>"
  let ?ops = "[Call ''a'', Call ''b'', Delete ''b'', Call ''a'']"
  let ?m1 = "snd (memo_call ''a'' ?m)"
  let ?m2 = "snd (memo_run ?ops ?m1)"
  have a1: "cache ?m ''a'' = None" by simp
  have a2: "memo_call ''a'' ?m = (fst (memo_call ''a'' ?m), ?m1)" by simp
  have a3: "Delete ''a'' \<notin> set ?ops" by simp
  have a4: "memo_run ?ops ?m1 = (fst (memo_run ?ops ?m1), ?m2)" by simp
  have a5: "memo_call ''a'' (memo_delete ''a'' ?m2) =
      (fst (memo_call ''a'' (memo_delete ''a'' ?m2)), snd (memo_call ''a'' (memo_delete ''a'' ?m2)))"
    by simp
  note th = memo_call_once_until_deleted [OF a1 a2 a3 a4 a5]
  have i0: "invocations ?m1 = invocations ?m @ [''a'']" using th by blast
  have i1: "invocations ?m1 = [''a'']" by (simp add: i0)
  have p0: "fst (memo_call ''a'' ?m) = length (invocations ?m)" using th by blast
  have p: "fst (memo_call ''a'' ?m) = 0" by (simp add: p0)
  have c0: "count_list (invocations ?m2) ''a'' = count_list (invocations ?m1) ''a''"
    using th by blast
  have c: "count_list (invocations ?m2) ''a'' = 1" by (simp only: c0 i1) simp
  have n0: "fst (memo_call ''a'' (memo_delete ''a'' ?m2)) \<noteq> fst (memo_call ''a'' ?m)"
    using th by blast
  have n: "fst (memo_call ''a'' (memo_delete ''a'' ?m2)) \<noteq> 0" using n0 unfolding p .
  show ?thesis using a1 a3 i1 p c n by blast
qed

section \<open>Properties of the update path\<close>

lemma map_of_filter_key:
  "map_of (filter (\<lambda>kv. P (fst kv)) p) k = (if P k then map_of p k else None)"
  by (induction p) auto

text \<open>
  Claim C7. Called while the ref \<^verbatim>\<open>project\<close> is empty, \<^verbatim>\<open>updateProject\<close> returns normally
  and leaves the whole state as it was, the log of \<^verbatim>\<open>updateProjectQuery\<close> calls included:
  the guard returns before the destructuring, which would throw on \<^verbatim>\<open>null\<close>.
\<close>

theorem updateProject_empty_slot:
  assumes "project st = None"
  shows "updateProject st = Inr st \<and> destructure_project (project st) = Inl TypeError"
  using assms by (simp add: updateProject_def destructure_project_def)

theorem updateProject_empty_slot_witness:
  "updateProject
     \<lparr>projects = Some [''p''], project = None,
      loadProjects = \<lparr>cache = Map.empty, invocations = []\<rparr>,
      loadProject = \<lparr>cache = Map.empty, invocations = []\<rparr>,
      errorStore = [], freshQueries = [], updateQueries = ([] :: ((string \<times> string) list \<times> string option) list)\<rparr> =
   Inr \<lparr>projects = Some [''p''], project = None,
      loadProjects = \<lparr>cache = Map.empty, invocations = []\<rparr>,
      loadProject = \<lparr>cache = Map.empty, invocations = []\<rparr>,
      errorStore = [], freshQueries = [], updateQueries = []\<rparr>"
  using updateProject_empty_slot
    [of "\<lparr>projects = Some [''p''], project = None,
      loadProjects = \<lparr>cache = Map.empty, invocations = []\<rparr>,
      loadProject = \<lparr>cache = Map.empty, invocations = []\<rparr>,
      errorStore = [], freshQueries = [], updateQueries = ([] :: ((string \<times> string) list \<times> string option) list)\<rparr>"]
  by simp

text \<open>
  Claim C9. Called while the ref \<^verbatim>\<open>project\<close> holds a project, \<^verbatim>\<open>updateProject\<close> calls
  \<^verbatim>\<open>updateProjectQuery\<close> once; the object it passes has exactly the properties of the
  project other than \<^verbatim>\<open>id\<close> and \<^verbatim>\<open>tasks\<close>, with their values, and the identifier it
  passes is the project's \<^verbatim>\<open>id\<close>.
\<close>

theorem updateProject_payload:
  assumes "project st = Some p"
  shows "\<exists>payload ident.
           updateProject st = Inr (st\<lparr>updateQueries := updateQueries st @ [(payload, ident)]\<rparr>) \<and>
           ident = map_of p ''id'' \<and>
           set payload = {kv \<in> set p. fst kv \<noteq> ''id'' \<and> fst kv \<noteq> ''tasks''} \<and>
           payload = filter (\<lambda>kv. fst kv \<noteq> ''tasks'' \<and> fst kv \<noteq> ''id'') p \<and>
           map_of payload ''id'' = None \<and> map_of payload ''tasks'' = None \<and>
           (\<forall>k. k \<noteq> ''id'' \<and> k \<noteq> ''tasks'' \<longrightarrow> map_of payload k = map_of p k)"
proof -
  let ?payload = "filter (\<lambda>kv. fst kv \<noteq> ''tasks'' \<and> fst kv \<noteq> ''id'') p"
  have u: "updateProject st =
      Inr (st\<lparr>updateQueries := updateQueries st @ [(?payload, map_of p ''id'')]\<rparr>)"
    using assms by (simp add: updateProject_def destructure_project_def)
  have m: "map_of ?payload k = (if k \<noteq> ''tasks'' \<and> k \<noteq> ''id'' then map_of p k else None)" for k
    by (rule map_of_filter_key)
  have s: "set ?payload = {kv \<in> set p. fst kv \<noteq> ''id'' \<and> fst kv \<noteq> ''tasks''}" by auto
  show ?thesis using u m s by auto
qed

theorem updateProject_payload_witness:
  "\<exists>payload ident.
     updateProject
       \<lparr>projects = Some [''p''],
        project = Some [(''id'', ''7''), (''name'', ''Alpha''), (''slug'', ''alpha''), (''tasks'', ''[]'')],
        loadProjects = \<lparr>cache = Map.empty, invocations = []\<rparr>,
        loadProject = \<lparr>cache = Map.empty, invocations = []\<rparr>,
        errorStore = [], freshQueries = [], updateQueries = []\<rparr> =
     Inr \<lparr>projects = Some [''p''],
        project = Some [(''id'', ''7''), (''name'', ''Alpha''), (''slug'', ''alpha''), (''tasks'', ''[]'')],
        loadProjects = \<lparr>cache = Map.empty, invocations = []\<rparr>,
        loadProject = \<lparr>cache = Map.empty, invocations = []\<rparr>,
        errorStore = [], freshQueries = [], updateQueries = [(payload, ident)]\<rparr> \<and>
     ident = Some ''7'' \<and> payload = [(''name'', ''Alpha''), (''slug'', ''alpha'')]"
  using updateProject_payload
    [of "\<lparr>projects = Some [''p''],
        project = Some [(''id'', ''7''), (''name'', ''Alpha''), (''slug'', ''alpha''), (''tasks'', ''[]'')],
        loadProjects = \<lparr>cache = Map.empty, invocations = []\<rparr>,
        loadProject = \<lparr>cache = Map.empty, invocations = []\<rparr>,
        errorStore = [], freshQueries = [], updateQueries = []\<rparr>"
        "[(''id'', ''7''), (''name'', ''Alpha''), (''slug'', ''alpha''), (''tasks'', ''[]'')]"]
  by simp

section \<open>Properties of the revalidation\<close>

lemma memo_delete_cache:
  "cache (memo_delete key m) = (cache m)(key := None)"
  "invocations (memo_delete key m) = invocations m"
  by (simp_all add: memo_delete_def)

text \<open>
  Claim C2, as stated, says that whenever the fresh result differs from the value of the
  ref, the ref is replaced with the fresh data. It is not when the fresh query fails:
  the ref holds \<open>X\<close>, the fresh query resolves with an error and no data; the serializations
  differ, the cache entry is deleted, and the ref still holds \<open>X\<close>.
\<close>

theorem validateCache_slot_not_replaced_counterexample:
  "Some ''X'' \<noteq> (None :: string option) \<and>
   (\<lambda>v. case v of None \<Rightarrow> ''null'' | Some s \<Rightarrow> s) (Some ''X'') \<noteq> (\<lambda>v. case v of None \<Rightarrow> ''null'' | Some s \<Rightarrow> s) (data \<lparr>data = None, error = Some (PostgrestError ''down''), status = 503\<rparr>) \<and>
   validateCache_then (\<lambda>v. case v of None \<Rightarrow> ''null'' | Some s \<Rightarrow> s) ''projects'' \<lparr>data = None, error = Some (PostgrestError ''down''), status = 503\<rparr> (Some ''X'', \<lparr>cache = [''projects'' \<mapsto> 0], invocations = [''projects'']\<rparr>) =
     (Some ''X'', memo_delete ''projects'' \<lparr>cache = [''projects'' \<mapsto> 0], invocations = [''projects'']\<rparr>) \<and>
   Some ''X'' \<noteq> data \<lparr>data = None, error = Some (PostgrestError ''down''), status = 503\<rparr>"
  by (simp add: validateCache_then_def)

text \<open>
  Claim C2, amended. Called on an empty ref, \<^verbatim>\<open>validateCache\<close> returns at once: no fresh
  query is issued and nothing is modified; on a ref that holds data it issues the fresh
  query. When that query resolves: if the serialization of its data equals that of the
  value of the ref, neither the memoized cache nor the ref is modified; if they differ,
  the cache entry of the key is deleted (the entries of other keys stay), and the ref is
  replaced with the fresh data when the result has no error and has data, and is left as
  it is otherwise.
\<close>

theorem validateCache_revalidation:
  fixes refv :: "'a option" and r :: "'a response"
  shows
  "validateCache (None :: 'a option) key issued = (False, issued) \<and>
   (refv \<noteq> None \<longrightarrow> validateCache refv key issued = (True, issued @ [key])) \<and>
   (stringify refv = stringify (data r) \<longrightarrow>
      validateCache_then stringify key r (refv, loaderFn) = (refv, loaderFn)) \<and>
   (stringify refv \<noteq> stringify (data r) \<longrightarrow>
      validateCache_then stringify key r (refv, loaderFn) =
        (if error r = None \<and> data r \<noteq> None then data r else refv, memo_delete key loaderFn) \<and>
      cache (memo_delete key loaderFn) key = None \<and>
      (\<forall>k. k \<noteq> key \<longrightarrow> cache (memo_delete key loaderFn) k = cache loaderFn k))"
  by (simp add: validateCache_def validateCache_then_def memo_delete_cache Let_def)

theorem validateCache_revalidation_witness:
  "validateCache_then (\<lambda>v. case v of None \<Rightarrow> ''null'' | Some s \<Rightarrow> s) ''projects'' \<lparr>data = Some ''Y'', error = None, status = 200\<rparr>
     (Some ''X'', \<lparr>cache = [''projects'' \<mapsto> 0], invocations = [''projects'']\<rparr>) = (Some ''Y'', memo_delete ''projects'' \<lparr>cache = [''projects'' \<mapsto> 0], invocations = [''projects'']\<rparr>) \<and>
   cache (memo_delete ''projects'' \<lparr>cache = [''projects'' \<mapsto> 0], invocations = [''projects'']\<rparr>) ''projects'' = None \<and>
   validateCache_then (\<lambda>v. case v of None \<Rightarrow> ''null'' | Some s \<Rightarrow> s) ''projects'' \<lparr>data = Some ''X'', error = None, status = 200\<rparr>
     (Some ''X'', \<lparr>cache = [''projects'' \<mapsto> 0], invocations = [''projects'']\<rparr>) = (Some ''X'', \<lparr>cache = [''projects'' \<mapsto> 0], invocations = [''projects'']\<rparr>) \<and>
   validateCache (Some ''X'') ''projects'' [] = (True, [''projects''])"
proof -
  let ?S = "(\<lambda>v. case v of None \<Rightarrow> ''null'' | Some s \<Rightarrow> s)"
  let ?m = "\<lparr>cache = [''projects'' \<mapsto> 0], invocations = [''projects'']\<rparr>"
  have d: "?S (Some ''X'') \<noteq> ?S (data \<lparr>data = Some ''Y'', error = None, status = 200\<rparr>)" by simp
  have e: "?S (Some ''X'') = ?S (data \<lparr>data = Some ''X'', error = None, status = 200\<rparr>)" by simp
  have n: "Some ''X'' \<noteq> None" by simp
  note th1 = validateCache_revalidation
      [where stringify = ?S and refv = "Some ''X''" and key = "''projects''" and loaderFn = ?m
         and issued = "[]" and r = "\<lparr>data = Some ''Y'', error = None, status = 200\<rparr>"]
  note th2 = validateCache_revalidation
      [where stringify = ?S and refv = "Some ''X''" and key = "''projects''" and loaderFn = ?m
         and issued = "[]" and r = "\<lparr>data = Some ''X'', error = None, status = 200\<rparr>"]
  have 1: "validateCache_then ?S ''projects'' \<lparr>data = Some ''Y'', error = None, status = 200\<rparr>
     (Some ''X'', ?m) = (Some ''Y'', memo_delete ''projects'' ?m)"
    using th1 [THEN conjunct2, THEN conjunct2, THEN conjunct2, THEN mp, OF d, THEN conjunct1]
    by simp
  have 2: "cache (memo_delete ''projects'' ?m) ''projects'' = None"
    using th1 [THEN conjunct2, THEN conjunct2, THEN conjunct2, THEN mp, OF d, THEN conjunct2,
        THEN conjunct1] .
  have 3: "validateCache_then ?S ''projects'' \<lparr>data = Some ''X'', error = None, status = 200\<rparr>
     (Some ''X'', ?m) = (Some ''X'', ?m)"
    using th2 [THEN conjunct2, THEN conjunct2, THEN conjunct1, THEN mp, OF e] .
  have 4: "validateCache (Some ''X'') ''projects'' [] = (True, [''projects''])"
    using th2 [THEN conjunct2, THEN conjunct1, THEN mp, OF n] by simp
  show ?thesis using 1 2 3 4 by (intro conjI)
qed


section \<open>Properties of the loaders\<close>

lemma project_getProject_begin [simp]: "project (snd (getProject_begin slug st)) = None"
  by (simp add: getProject_begin_def Let_def split: prod.splits)

lemma projects_getProjects_begin [simp]: "projects (snd (getProjects_begin st)) = None"
  by (simp add: getProjects_begin_def Let_def split: prod.splits)

lemma project_getProject_resume:
  "project (getProject_resume slug r st) = (case data r of Some d \<Rightarrow> Some d | None \<Rightarrow> project st)"
  by (simp add: getProject_resume_def Let_def split: option.splits)

lemma through_empty_reset: "through_empty [x, None, y]"
  by (cases x) simp_all

text \<open>
  Claim C3, as stated, says that the value of the ref never goes from a non-empty value
  to a different non-empty value without an empty value in between. Two overlapping
  calls break it: \<^verbatim>\<open>getProject('a')\<close> and \<^verbatim>\<open>getProject('b')\<close> both reset the ref, then the fetch
  of \<open>a\<close> resolves and the ref holds project A, then the fetch of \<open>b\<close> resolves and the ref
  holds project B.
\<close>

theorem direct_replacement_counterexample:
  "project_trace (\<lambda>v. [])
     [GetProject ''a'', GetProject ''b'', GetProjectResumed ''a'' \<lparr>data = Some [(''name'', ''A'')], error = None, status = 200\<rparr>, GetProjectResumed ''b'' \<lparr>data = Some [(''name'', ''B'')], error = None, status = 200\<rparr>]
     \<lparr>projects = (None :: string list option), project = None,
      loadProjects = \<lparr>cache = Map.empty, invocations = []\<rparr>,
      loadProject = \<lparr>cache = Map.empty, invocations = []\<rparr>,
      errorStore = [], freshQueries = [], updateQueries = []\<rparr> =
     [None, None, None, Some [(''name'', ''A'')], Some [(''name'', ''B'')]] \<and>
   \<not> through_empty (project_trace (\<lambda>v. [])
     [GetProject ''a'', GetProject ''b'', GetProjectResumed ''a'' \<lparr>data = Some [(''name'', ''A'')], error = None, status = 200\<rparr>, GetProjectResumed ''b'' \<lparr>data = Some [(''name'', ''B'')], error = None, status = 200\<rparr>]
     \<lparr>projects = (None :: string list option), project = None,
      loadProjects = \<lparr>cache = Map.empty, invocations = []\<rparr>,
      loadProject = \<lparr>cache = Map.empty, invocations = []\<rparr>,
      errorStore = [], freshQueries = [], updateQueries = []\<rparr>)"
  by (simp add: project_getProject_resume)

text \<open>
  Claim C3, amended. Every call of \<^verbatim>\<open>getProject\<close> and of \<^verbatim>\<open>getProjects\<close> sets its ref to
  the empty state in its synchronous start, before the first await; so over a call whose
  start and continuation run with nothing else in between, the ref goes from the value it
  held before the call through the empty state to what the fetch delivers.
\<close>

theorem reset_before_fetch:
  "project (snd (getProject_begin slug st)) = None \<and>
   projects (snd (getProjects_begin st)) = None \<and>
   project_trace stringify [GetProject slug, GetProjectResumed slug r] st =
     [project st, None, data r] \<and>
   through_empty (project_trace stringify [GetProject slug, GetProjectResumed slug r] st) \<and>
   through_empty [projects st, projects (snd (getProjects_begin st)),
                  projects (getProjects_resume rs (snd (getProjects_begin st)))]"
proof -
  have t: "project_trace stringify [GetProject slug, GetProjectResumed slug r] st =
     [project st, None, data r]"
    by (simp add: project_getProject_resume split: option.splits)
  have "through_empty (project_trace stringify [GetProject slug, GetProjectResumed slug r] st)"
    unfolding t by (rule through_empty_reset)
  moreover have "through_empty [projects st, projects (snd (getProjects_begin st)),
                  projects (getProjects_resume rs (snd (getProjects_begin st)))]"
    by (simp add: through_empty_reset)
  ultimately show ?thesis using t by simp
qed


text \<open>
  Between the two continuations a callback of \<^verbatim>\<open>validateCache\<close> may run: the fetch of \<open>b\<close>
  resolves with project B, the revalidation that its continuation started resolves with
  a changed project B2 and replaces the ref, then the fetch of \<open>a\<close> resolves with an error
  and no data. The ref holds B2, which neither fetch delivered.
\<close>

lemma revalidation_between_settles:
  "project (run (\<lambda>v. case v of None \<Rightarrow> ''null'' | Some p \<Rightarrow> concat (map snd p))
     [GetProject ''a'', GetProject ''b'',
      GetProjectResumed ''b'' \<lparr>data = Some [(''name'', ''B'')], error = None, status = 200\<rparr>,
      ProjectRevalidated ''b'' \<lparr>data = Some [(''name'', ''B2'')], error = None, status = 200\<rparr>,
      GetProjectResumed ''a'' \<lparr>data = None, error = Some (PostgrestError ''down''), status = 503\<rparr>]
     \<lparr>projects = (None :: string list option), project = None,
      loadProjects = \<lparr>cache = Map.empty, invocations = []\<rparr>,
      loadProject = \<lparr>cache = Map.empty, invocations = []\<rparr>,
      errorStore = [], freshQueries = [], updateQueries = []\<rparr>) = Some [(''name'', ''B2'')]"
  by (simp add: run_def project_getProject_resume project_revalidated_def validateCache_then_def
      getProject_resume_def getProject_begin_def memo_call_def memo_delete_def validateCache_def
      Let_def)


end
